theory Spec2Isabelle
  imports Complex_Main
begin

section \<open>Static PageRank on Hornet: the data model\<close>

text \<open>
  The development follows \<^verbatim>\<open>src/Static/PageRank/PageRank.cu\<close>. The headers it includes
  (\<^verbatim>\<open>PageRank.cuh\<close>, \<^verbatim>\<open>PageRankOperators.cuh\<close>) and the Hornet framework are not part of
  the sources at hand, so three things are kept abstract:
  \<^item> the score type \<^verbatim>\<open>pr_t\<close> is a type variable \<open>'p\<close>; the definitions ask only for the
    operations the code writes (\<open>+\<close>, \<open>-\<close>, \<open>/\<close>, \<open>1\<close>, \<open><\<close>) and for none of their laws, so
    a theorem stated for \<open>'p\<close> holds for any arithmetic, rounding or not; only the sum of
    the scores, in the last section, is computed over the reals;
  \<^item> \<^verbatim>\<open>static_cast<float>\<close> is a parameter \<open>cast\<close>;
  \<^item> what a kernel launch does to the solver's data is a parameter \<open>sem\<close>, indexed by the
    operator that is launched.
\<close>

type_synonym vid_t = nat

text \<open>
  Modelled from the spec: the graph handle \<^verbatim>\<open>HornetGPU\<close> belongs to the Hornet framework.
  Section 6 of the specification gives what the solver consumes from it: the vertex count,
  a visit of every vertex id in \<open>[0, N)\<close> and a visit of every stored edge \<open>(u, v)\<close>.
\<close>

record HornetGPU =
  hornet_nV :: nat
  hornet_edges :: "(vid_t \<times> vid_t) list"

text \<open>
  The fields of \<^verbatim>\<open>PrData\<close> that \<^verbatim>\<open>PageRank.cu\<close> reads and writes through
  \<^verbatim>\<open>hd_prdata()\<close>. The four vectors and \<open>reduction_out\<close> are device buffers; the counters
  are C \<^verbatim>\<open>int\<close>s. The counter only grows while it is below \<open>iteration_max\<close>, so it never
  leaves the range of \<open>iteration_max\<close> and unbounded integers lose nothing.
\<close>

record 'p PrData =
  nV :: nat
  prev_pr :: "'p list"
  curr_pr :: "'p list"
  abs_diff :: "'p list"
  contri :: "'p list"
  reduction_out :: 'p
  iteration :: int
  iteration_max :: int
  threshold :: 'p
  damp :: 'p
  normalized_damp :: 'p

text \<open>The operators that \<^verbatim>\<open>PageRank.cu\<close> instantiates, and the three traversals it calls.\<close>

datatype operator =
    InitOperator
  | ResetCurr
  | ComputeContribuitionPerVertex
  | AddContribuitionsUndirected
  | DampAndDiffAndCopy
  | Sum
  | SetIds
  | SumPr

datatype traversal = NumV | Vertices | Edges

type_synonym 'p kernels = "operator \<Rightarrow> HornetGPU \<Rightarrow> 'p PrData \<Rightarrow> 'p PrData"

text \<open>
  The solver object: its \<^verbatim>\<open>hd_prdata\<close> member and the sequence of kernel launches it has
  issued so far, oldest first.
\<close>

record 'p solver =
  hd_prdata :: "'p PrData"
  launched :: "(traversal \<times> operator) list"

section \<open>Kernel launches\<close>

text \<open>
  A launch \<^verbatim>\<open>forAll...(hornet, Op { hd_prdata })\<close> runs the operator over the whole graph
  and is recorded. The next statement of the host code sees the data the launch left.
\<close>

definition launch :: "traversal \<Rightarrow> 'p kernels \<Rightarrow> HornetGPU \<Rightarrow> operator \<Rightarrow> 'p solver \<Rightarrow> 'p solver" where
  "launch t sem hornet op s =
     s\<lparr>hd_prdata := sem op hornet (hd_prdata s), launched := launched s @ [(t, op)]\<rparr>"

abbreviation forAllnumV :: "'p kernels \<Rightarrow> HornetGPU \<Rightarrow> operator \<Rightarrow> 'p solver \<Rightarrow> 'p solver" where
  "forAllnumV \<equiv> launch NumV"

abbreviation forAllVertices :: "'p kernels \<Rightarrow> HornetGPU \<Rightarrow> operator \<Rightarrow> 'p solver \<Rightarrow> 'p solver" where
  "forAllVertices \<equiv> launch Vertices"

abbreviation forAllEdges :: "'p kernels \<Rightarrow> HornetGPU \<Rightarrow> operator \<Rightarrow> 'p solver \<Rightarrow> 'p solver" where
  "forAllEdges \<equiv> launch Edges"

section \<open>Construction\<close>

text \<open>\<^verbatim>\<open>gpu::allocate\<close> returns a buffer of the asked length whose cells hold whatever was there.\<close>

definition gpu_allocate :: "(nat \<Rightarrow> 'p) \<Rightarrow> nat \<Rightarrow> 'p list" where
  "gpu_allocate junk n = map junk [0..<n]"

definition reset :: "'p solver \<Rightarrow> 'p solver" where
  "reset s = s\<lparr>hd_prdata := (hd_prdata s)\<lparr>iteration := 0\<rparr>\<rparr>"

definition setInputParameters ::
  "(nat \<Rightarrow> 'p) \<Rightarrow> HornetGPU \<Rightarrow> int \<Rightarrow> 'p \<Rightarrow> 'p \<Rightarrow> 'p::{one,minus,inverse} solver \<Rightarrow> 'p solver" where
  "setInputParameters cast hornet iteration_max' threshold' damp' s =
     s\<lparr>hd_prdata := (hd_prdata s)
        \<lparr>iteration_max := iteration_max',
         threshold := threshold',
         damp := damp',
         normalized_damp := (1 - damp') / cast (hornet_nV hornet)\<rparr>\<rparr>"

text \<open>
  The constructor. \<open>raw\<close> is the object before any member is assigned and \<open>junk\<close> the
  content of fresh device memory; no kernel has been launched on a new object.
\<close>

definition StaticPageRank ::
  "(nat \<Rightarrow> 'p) \<Rightarrow> 'p PrData \<Rightarrow> (nat \<Rightarrow> 'p) \<Rightarrow> HornetGPU \<Rightarrow> int \<Rightarrow> 'p \<Rightarrow> 'p
     \<Rightarrow> 'p::{one,minus,inverse} solver" where
  "StaticPageRank cast raw junk hornet iteration_max' threshold' damp' =
     (let s0 = \<lparr>hd_prdata = raw, launched = []\<rparr>;
          s1 = setInputParameters cast hornet iteration_max' threshold' damp' s0;
          s2 = s1\<lparr>hd_prdata := (hd_prdata s1)
                 \<lparr>nV := hornet_nV hornet,
                  prev_pr := gpu_allocate junk (hornet_nV hornet + 1),
                  curr_pr := gpu_allocate junk (hornet_nV hornet + 1),
                  abs_diff := gpu_allocate junk (hornet_nV hornet + 1),
                  contri := gpu_allocate junk (hornet_nV hornet + 1),
                  reduction_out := junk 0\<rparr>\<rparr>
      in reset s2)"

section \<open>The convergence loop\<close>

text \<open>
  One turn of the \<^verbatim>\<open>while\<close> loop of \<^verbatim>\<open>run\<close>: five launches, the copy of
  \<open>reduction_out\<close> to the host variable \<open>h_out\<close>, then \<^verbatim>\<open>iteration++\<close>. The call
  \<^verbatim>\<open>hd_prdata.sync()\<close> refreshes the host's view of the data, which is the only view here.
\<close>

definition run_pass :: "'p kernels \<Rightarrow> HornetGPU \<Rightarrow> 'p solver \<Rightarrow> 'p solver \<times> 'p" where
  "run_pass sem hornet s =
     (let s1 = forAllnumV sem hornet ResetCurr s;
          s2 = forAllVertices sem hornet ComputeContribuitionPerVertex s1;
          s3 = forAllEdges sem hornet AddContribuitionsUndirected s2;
          s4 = forAllnumV sem hornet DampAndDiffAndCopy s3;
          s5 = forAllnumV sem hornet Sum s4;
          h_out = reduction_out (hd_prdata s5)
      in (s5\<lparr>hd_prdata := (hd_prdata s5)\<lparr>iteration := iteration (hd_prdata s5) + 1\<rparr>\<rparr>, h_out))"

text \<open>The loop condition, on the solver and the host variable \<open>h_out\<close>.\<close>

definition run_guard :: "'p::ord solver \<times> 'p \<Rightarrow> bool" where
  "run_guard x =
     (iteration (hd_prdata (fst x)) < iteration_max (hd_prdata (fst x))
      \<and> threshold (hd_prdata (fst x)) < snd x)"

text \<open>
  Nothing in \<^verbatim>\<open>PageRank.cu\<close> stops a kernel from writing the counters, so the loop is
  defined without a claim that it ends: \<open>None\<close> is a run that never returns.
\<close>

partial_function (option) run_loop ::
  "'p::ord kernels \<Rightarrow> HornetGPU \<Rightarrow> 'p solver \<times> 'p \<Rightarrow> 'p solver option" where
  "run_loop sem hornet x =
     (if run_guard x then run_loop sem hornet (run_pass sem hornet (fst x)) else Some (fst x))"

declare run_loop.simps [code]

definition run_init :: "'p kernels \<Rightarrow> HornetGPU \<Rightarrow> 'p::{one,plus} solver \<Rightarrow> 'p solver \<times> 'p" where
  "run_init sem hornet s =
     (let s1 = forAllnumV sem hornet InitOperator s;
          s2 = s1\<lparr>hd_prdata := (hd_prdata s1)\<lparr>iteration := 0\<rparr>\<rparr>;
          h_out = threshold (hd_prdata s2) + 1
      in (s2, h_out))"

definition run :: "'p kernels \<Rightarrow> HornetGPU \<Rightarrow> 'p::{one,plus,ord} solver \<Rightarrow> 'p solver option" where
  "run sem hornet s = run_loop sem hornet (run_init sem hornet s)"

definition get_iteration_count :: "'p solver \<Rightarrow> int" where
  "get_iteration_count s = iteration (hd_prdata s)"

text \<open>
  The rest of the loop's vocabulary: a step on the pair of solver and \<open>h_out\<close>, the
  launches of one turn in the order the source issues them, and the one thing the theorems
  on the loop ask of the kernels, that no launch writes \<open>iteration\<close>, \<open>iteration_max\<close> or
  \<open>threshold\<close>.
\<close>

definition run_step :: "'p kernels \<Rightarrow> HornetGPU \<Rightarrow> 'p solver \<times> 'p \<Rightarrow> 'p solver \<times> 'p" where
  "run_step sem hornet x = run_pass sem hornet (fst x)"

definition pass_launches :: "(traversal \<times> operator) list" where
  "pass_launches =
     [(NumV, ResetCurr), (Vertices, ComputeContribuitionPerVertex),
      (Edges, AddContribuitionsUndirected), (NumV, DampAndDiffAndCopy), (NumV, Sum)]"

definition keeps_control :: "'p kernels \<Rightarrow> HornetGPU \<Rightarrow> bool" where
  "keeps_control sem hornet \<longleftrightarrow>
     (\<forall>op d. iteration (sem op hornet d) = iteration d
           \<and> iteration_max (sem op hornet d) = iteration_max d
           \<and> threshold (sem op hornet d) = threshold d)"

text \<open>The solver and the host variable \<open>h_out\<close> once \<open>k\<close> turns of the loop have been taken.\<close>

definition after_passes ::
  "'p kernels \<Rightarrow> HornetGPU \<Rightarrow> 'p::{one,plus} solver \<Rightarrow> nat \<Rightarrow> 'p solver \<times> 'p" where
  "after_passes sem hornet s k = (run_step sem hornet ^^ k) (run_init sem hornet s)"

section \<open>The ranking report\<close>

datatype error = OutOfBounds int

record 'p report =
  rankings :: "(vid_t \<times> 'p) list"
  total :: 'p

text \<open>
  Modelled from the spec: \<^verbatim>\<open>SetIds\<close> is declared in \<^verbatim>\<open>PageRankOperators.cuh\<close>. Section 4.3
  of the specification pairs each vertex id with its score, so the buffer it fills holds
  the ids \<open>0, ..., n - 1\<close> in order.
\<close>

definition SetIds_buffer :: "nat \<Rightarrow> vid_t list" where
  "SetIds_buffer n = [0..<n]"

text \<open>
  \<^verbatim>\<open>cub::DeviceRadixSort::SortPairs\<close> of the CUB library: the keys in ascending order, each
  with the value it came with, equal keys in their input order. The first call in the
  source passes no scratch storage and only sizes it; the second one sorts, scores as keys
  and ids as values.
\<close>

definition SortPairs :: "'k::linorder list \<Rightarrow> 'v list \<Rightarrow> ('k \<times> 'v) list" where
  "SortPairs keys vals = sort_key fst (zip keys vals)"

text \<open>
  The indices \<^verbatim>\<open>hornet.nV() - i\<close> for \<^verbatim>\<open>i = 1, ..., 10\<close>, and the reads of \<open>h_ids\<close> and
  \<open>h_scores\<close> at them. Both host arrays have \<open>length h_ids\<close> cells; a read outside them is
  undefined behaviour in C++, which the model reports as \<open>OutOfBounds\<close> with the index.
\<close>

definition ranking_indices :: "nat \<Rightarrow> int list" where
  "ranking_indices n = map (\<lambda>i. int n - i) [1..10]"

primrec read_entries :: "vid_t list \<Rightarrow> 'p list \<Rightarrow> int list \<Rightarrow> error + (vid_t \<times> 'p) list" where
  "read_entries h_ids h_scores [] = Inr []"
| "read_entries h_ids h_scores (j # js) =
     (if j < 0 \<or> int (length h_ids) \<le> j then Inl (OutOfBounds j)
      else case read_entries h_ids h_scores js of
             Inl e \<Rightarrow> Inl e
           | Inr ls \<Rightarrow> Inr ((h_ids ! nat j, h_scores ! nat j) # ls))"

text \<open>
  \<^verbatim>\<open>get_page_rank_score_host\<close> copies the first \<open>nV\<close> cells of \<open>curr_pr\<close> to the host.
  \<^verbatim>\<open>printRankings\<close> copies the same cells, fills the id buffer, sorts the pairs, reads
  ten entries from the end of the sorted arrays, then launches \<^verbatim>\<open>ResetCurr\<close> and
  \<^verbatim>\<open>SumPr\<close> and prints the reduction scalar. Its result is what it printed and the solver
  it leaves, or the first read outside a buffer. The score vector of a constructed solver
  has \<open>nV + 1\<close> cells; should it have fewer than \<open>nV\<close>, the copy itself is such a read.
  Allocation and release of the temporary buffers are not modelled.
\<close>

definition get_page_rank_score_host :: "HornetGPU \<Rightarrow> 'p solver \<Rightarrow> 'p list" where
  "get_page_rank_score_host hornet s = take (hornet_nV hornet) (curr_pr (hd_prdata s))"

definition printRankings ::
  "'p kernels \<Rightarrow> HornetGPU \<Rightarrow> 'p::linorder solver \<Rightarrow> error + ('p report \<times> 'p solver)" where
  "printRankings sem hornet s =
     (let n = hornet_nV hornet in
      if length (curr_pr (hd_prdata s)) < n
      then Inl (OutOfBounds (int (length (curr_pr (hd_prdata s)))))
      else
        let d_scores = take n (curr_pr (hd_prdata s));
            s1 = s\<lparr>launched := launched s @ [(NumV, SetIds)]\<rparr>;
            d_ids = SetIds_buffer n;
            sorted = SortPairs d_scores d_ids;
            h_ids = map snd sorted;
            h_scores = map fst sorted
        in case read_entries h_ids h_scores (ranking_indices n) of
             Inl e \<Rightarrow> Inl e
           | Inr lines \<Rightarrow>
               (let s2 = forAllnumV sem hornet ResetCurr s1;
                    s3 = forAllnumV sem hornet SumPr s2;
                    h_out = reduction_out (hd_prdata s3)
                in Inr (\<lparr>rankings = lines, total = h_out\<rparr>, s3)))"

section \<open>The iteration kernels, as the specification describes them\<close>

text \<open>
  Modelled from the spec: the traversals of the Hornet framework (section 6). A traversal
  calls the operator once per vertex id in \<open>[0, N)\<close>, or once per stored edge; the order
  among the calls is not fixed by the framework and is taken here as the order of the ids
  and of the edge list.
\<close>

definition forEachVertex :: "HornetGPU \<Rightarrow> (vid_t \<Rightarrow> 'a \<Rightarrow> 'a) \<Rightarrow> 'a \<Rightarrow> 'a" where
  "forEachVertex hornet f = fold f [0..<hornet_nV hornet]"

definition forEachEdge :: "HornetGPU \<Rightarrow> (vid_t \<times> vid_t \<Rightarrow> 'a \<Rightarrow> 'a) \<Rightarrow> 'a \<Rightarrow> 'a" where
  "forEachEdge hornet f = fold f (hornet_edges hornet)"

definition out_degree :: "HornetGPU \<Rightarrow> vid_t \<Rightarrow> nat" where
  "out_degree hornet v = length (filter (\<lambda>e. fst e = v) (hornet_edges hornet))"

text \<open>
  Modelled from the spec: the operator bodies are in \<^verbatim>\<open>PageRankOperators.cuh\<close>, which is
  not among the sources. Section 4.1 of the specification, stage 1:
  for every vertex, \<open>curr_score[v] := normalized_damping\<close>.
\<close>

definition Reset_at :: "vid_t \<Rightarrow> 'p PrData \<Rightarrow> 'p PrData" where
  "Reset_at v d = d\<lparr>curr_pr := (curr_pr d)[v := normalized_damp d]\<rparr>"

definition Reset :: "HornetGPU \<Rightarrow> 'p PrData \<Rightarrow> 'p PrData" where
  "Reset hornet = forEachVertex hornet Reset_at"

text \<open>
  Modelled from the spec: section 4.1, stage 2 (operator body not among the sources):
  \<open>contribution[v] := (out_degree(v) > 0) ? prev_score[v] / out_degree(v) : 0\<close>.
\<close>

definition ContributionCompute_at ::
  "(nat \<Rightarrow> 'p) \<Rightarrow> HornetGPU \<Rightarrow> vid_t \<Rightarrow> 'p::{zero,inverse} PrData \<Rightarrow> 'p PrData" where
  "ContributionCompute_at cast hornet v d =
     d\<lparr>contri := (contri d)
        [v := (if 0 < out_degree hornet v then prev_pr d ! v / cast (out_degree hornet v) else 0)]\<rparr>"

definition ContributionCompute ::
  "(nat \<Rightarrow> 'p) \<Rightarrow> HornetGPU \<Rightarrow> 'p::{zero,inverse} PrData \<Rightarrow> 'p PrData" where
  "ContributionCompute cast hornet = forEachVertex hornet (ContributionCompute_at cast hornet)"

text \<open>
  Modelled from the spec: section 4.1, stage 3 (operator body not among the sources):
  for every directed edge \<open>(u \<rightarrow> v)\<close>, add \<open>contribution[u]\<close> into \<open>curr_score[v]\<close>.
\<close>

definition ContributionScatter_at :: "vid_t \<times> vid_t \<Rightarrow> 'p::plus PrData \<Rightarrow> 'p PrData" where
  "ContributionScatter_at e d =
     d\<lparr>curr_pr := (curr_pr d)[snd e := curr_pr d ! snd e + contri d ! fst e]\<rparr>"

definition ContributionScatter :: "HornetGPU \<Rightarrow> 'p::plus PrData \<Rightarrow> 'p PrData" where
  "ContributionScatter hornet = forEachEdge hornet ContributionScatter_at"

text \<open>
  Modelled from the spec: section 4.1, stage 3, the undirected variant (operator body not
  among the sources): the contribution of the edge, \<open>contribution[u]\<close> for the stored edge
  \<open>(u, v)\<close>, is added to both endpoints, once each, first to \<open>v\<close> and then to \<open>u\<close>.
\<close>

definition ContributionScatterUndirected_at :: "vid_t \<times> vid_t \<Rightarrow> 'p::plus PrData \<Rightarrow> 'p PrData" where
  "ContributionScatterUndirected_at e d =
     (let c = contri d ! fst e;
          d1 = d\<lparr>curr_pr := (curr_pr d)[snd e := curr_pr d ! snd e + c]\<rparr>
      in d1\<lparr>curr_pr := (curr_pr d1)[fst e := curr_pr d1 ! fst e + c]\<rparr>)"

definition ContributionScatterUndirected :: "HornetGPU \<Rightarrow> 'p::plus PrData \<Rightarrow> 'p PrData" where
  "ContributionScatterUndirected hornet = forEachEdge hornet ContributionScatterUndirected_at"

text \<open>
  Modelled from the spec: section 4.1, stage 4 (operator body not among the sources):
  \<open>abs_diff[v] := |curr_score[v] - prev_score[v]|\<close>, then \<open>curr_score[v]\<close> is copied into
  \<open>prev_score[v]\<close>; the difference is taken before the copy.
\<close>

definition DampAndDiff_at :: "vid_t \<Rightarrow> 'p::{minus,abs} PrData \<Rightarrow> 'p PrData" where
  "DampAndDiff_at v d =
     (let d1 = d\<lparr>abs_diff := (abs_diff d)[v := \<bar>curr_pr d ! v - prev_pr d ! v\<bar>]\<rparr>
      in d1\<lparr>prev_pr := (prev_pr d1)[v := curr_pr d1 ! v]\<rparr>)"

definition DampAndDiff :: "HornetGPU \<Rightarrow> 'p::{minus,abs} PrData \<Rightarrow> 'p PrData" where
  "DampAndDiff hornet = forEachVertex hornet DampAndDiff_at"

text \<open>
  Modelled from the spec: section 4.1, stage 5 (operator body not among the sources):
  the sum of \<open>abs_diff[v]\<close> over all vertices goes into the reduction scalar.
\<close>

definition ConvergenceReduce_at :: "vid_t \<Rightarrow> 'p::plus PrData \<Rightarrow> 'p PrData" where
  "ConvergenceReduce_at v d = d\<lparr>reduction_out := reduction_out d + abs_diff d ! v\<rparr>"

definition ConvergenceReduce :: "HornetGPU \<Rightarrow> 'p::{zero,plus} PrData \<Rightarrow> 'p PrData" where
  "ConvergenceReduce hornet d = forEachVertex hornet ConvergenceReduce_at (d\<lparr>reduction_out := 0\<rparr>)"

text \<open>
  Modelled from the spec: which stage of section 4.1 each operator of \<^verbatim>\<open>run\<close> stands for.
  Section 4.2 has the initialisation run Reset once, so \<^verbatim>\<open>InitOperator\<close> is Reset as well.
  \<^verbatim>\<open>SumPr\<close> of the ranking report has no counterpart in the specification and is left
  as the identity; \<^verbatim>\<open>SetIds\<close> does not work on the solver's data.
\<close>

definition spec_kernels :: "(nat \<Rightarrow> 'p) \<Rightarrow> 'p::{zero,plus,minus,abs,inverse} kernels" where
  "spec_kernels cast op hornet d =
     (case op of
        InitOperator \<Rightarrow> Reset hornet d
      | ResetCurr \<Rightarrow> Reset hornet d
      | ComputeContribuitionPerVertex \<Rightarrow> ContributionCompute cast hornet d
      | AddContribuitionsUndirected \<Rightarrow> ContributionScatterUndirected hornet d
      | DampAndDiffAndCopy \<Rightarrow> DampAndDiff hornet d
      | Sum \<Rightarrow> ConvergenceReduce hornet d
      | SetIds \<Rightarrow> d
      | SumPr \<Rightarrow> d)"

section \<open>Example inputs\<close>

text \<open>
  The graph of the specification's undirected scenario, one stored edge \<open>(0, 1)\<close> on two
  vertices, and a solver constructed on it with threshold \<open>1/1000\<close> and damping \<open>17/20\<close>,
  over the reals. The object and the device memory start with arbitrary content.
\<close>

definition pair_graph :: HornetGPU where
  "pair_graph = \<lparr>hornet_nV = 2, hornet_edges = [(0, 1)]\<rparr>"

definition raw_example :: "real PrData" where
  "raw_example = \<lparr>nV = 7, prev_pr = [], curr_pr = [], abs_diff = [], contri = [],
     reduction_out = 5, iteration = 42, iteration_max = 9, threshold = 3, damp = 4,
     normalized_damp = 6\<rparr>"

definition fresh_example :: "nat \<Rightarrow> real" where
  "fresh_example i = real i + 7"

definition pair_solver :: "int \<Rightarrow> real solver" where
  "pair_solver m =
     StaticPageRank real raw_example fresh_example pair_graph m (1 / 1000) (17 / 20)"

text \<open>
  A graph of twelve vertices and a solver constructed on it, whose score vector holds
  what the fresh memory held: \<open>7, 12, 10, 8, 13, 11, 9, 7, 12, 10, 8, 13\<close> and one cell more.
\<close>

definition dozen_graph :: HornetGPU where
  "dozen_graph = \<lparr>hornet_nV = 12, hornet_edges = [(0, 1)]\<rparr>"

definition dozen_solver :: "real solver" where
  "dozen_solver =
     StaticPageRank real raw_example (\<lambda>i. real ((i * 5) mod 7) + 7) dozen_graph 3
       (1 / 1000) (17 / 20)"



section \<open>The loop returns, and what it has done when it does\<close>

lemma launched_run_pass:
  "launched (fst (run_pass sem hornet s)) = launched s @ pass_launches"
  by (simp add: run_pass_def launch_def pass_launches_def Let_def)

lemma launched_run_steps:
  "launched (fst ((run_step sem hornet ^^ n) x)) =
     launched (fst x) @ concat (replicate n pass_launches)"
proof (induction n)
  case 0
  show ?case by simp
next
  case (Suc n)
  have "replicate (Suc n) pass_launches = replicate n pass_launches @ [pass_launches]"
    by (simp add: replicate_append_same)
  then have "concat (replicate (Suc n) pass_launches) =
               concat (replicate n pass_launches) @ pass_launches"
    by (simp del: replicate_Suc)
  then show ?case using Suc
    by (simp add: run_step_def launched_run_pass del: replicate_Suc)
qed

lemma control_run_pass:
  assumes "keeps_control sem hornet"
  shows "iteration (hd_prdata (fst (run_pass sem hornet s))) = iteration (hd_prdata s) + 1"
    and "iteration_max (hd_prdata (fst (run_pass sem hornet s))) = iteration_max (hd_prdata s)"
    and "threshold (hd_prdata (fst (run_pass sem hornet s))) = threshold (hd_prdata s)"
  using assms by (simp_all add: keeps_control_def run_pass_def launch_def Let_def)

lemma control_run_steps:
  assumes "keeps_control sem hornet"
  shows "iteration (hd_prdata (fst ((run_step sem hornet ^^ n) x))) =
           iteration (hd_prdata (fst x)) + int n"
    and "iteration_max (hd_prdata (fst ((run_step sem hornet ^^ n) x))) =
           iteration_max (hd_prdata (fst x))"
    and "threshold (hd_prdata (fst ((run_step sem hornet ^^ n) x))) =
           threshold (hd_prdata (fst x))"
  by (induction n) (simp_all add: run_step_def control_run_pass [OF assms])

text \<open>
  Each turn brings the counter one closer to \<open>iteration_max\<close>, so the loop returns after
  some number \<open>n\<close> of turns: the condition held before each of them and fails after the last.
\<close>

lemma run_loop_returns:
  assumes kc: "keeps_control sem hornet"
  shows "\<exists>n. run_loop sem hornet x = Some (fst ((run_step sem hornet ^^ n) x))
            \<and> (\<forall>k<n. run_guard ((run_step sem hornet ^^ k) x))
            \<and> \<not> run_guard ((run_step sem hornet ^^ n) x)"
proof (induction "nat (iteration_max (hd_prdata (fst x)) - iteration (hd_prdata (fst x)))"
    arbitrary: x rule: less_induct)
  case less
  show ?case
  proof (cases "run_guard x")
    case False
    then have "run_loop sem hornet x = Some (fst x)"
      by (subst run_loop.simps) simp
    with False show ?thesis
      by (intro exI [of _ 0]) simp
  next
    case True
    let ?y = "run_step sem hornet x"
    from True have lt: "iteration (hd_prdata (fst x)) < iteration_max (hd_prdata (fst x))"
      by (simp add: run_guard_def)
    have "nat (iteration_max (hd_prdata (fst ?y)) - iteration (hd_prdata (fst ?y)))
          < nat (iteration_max (hd_prdata (fst x)) - iteration (hd_prdata (fst x)))"
      using lt by (simp add: run_step_def control_run_pass [OF kc])
    from less [OF this] obtain n where
      n: "run_loop sem hornet ?y = Some (fst ((run_step sem hornet ^^ n) ?y))"
         "\<forall>k<n. run_guard ((run_step sem hornet ^^ k) ?y)"
         "\<not> run_guard ((run_step sem hornet ^^ n) ?y)"
      by blast
    have unfold: "run_loop sem hornet x = run_loop sem hornet ?y"
      using True by (subst run_loop.simps) (simp add: run_step_def)
    have shift: "(run_step sem hornet ^^ k) ?y = (run_step sem hornet ^^ Suc k) x" for k
      by (simp add: funpow_swap1)
    have "\<forall>k<Suc n. run_guard ((run_step sem hornet ^^ k) x)"
    proof (intro allI impI)
      fix k assume "k < Suc n"
      show "run_guard ((run_step sem hornet ^^ k) x)"
      proof (cases k)
        case 0
        with True show ?thesis by simp
      next
        case (Suc j)
        with \<open>k < Suc n\<close> have "j < n" by simp
        with n(2) have "run_guard ((run_step sem hornet ^^ j) ?y)" by blast
        then show ?thesis unfolding Suc shift .
      qed
    qed
    moreover have "run_loop sem hornet x = Some (fst ((run_step sem hornet ^^ Suc n) x))"
      using unfold n(1) unfolding shift by simp
    moreover have "\<not> run_guard ((run_step sem hornet ^^ Suc n) x)"
      using n(3) unfolding shift .
    ultimately show ?thesis by blast
  qed
qed

lemma run_pass_scalar:
  "snd (run_pass sem hornet s) = reduction_out (hd_prdata (fst (run_pass sem hornet s)))"
  by (simp add: run_pass_def Let_def)

lemma run_pass_data:
  "hd_prdata (fst (run_pass sem hornet s)) =
     (let d = sem Sum hornet (sem DampAndDiffAndCopy hornet
                (sem AddContribuitionsUndirected hornet
                  (sem ComputeContribuitionPerVertex hornet
                    (sem ResetCurr hornet (hd_prdata s)))))
      in d\<lparr>iteration := iteration d + 1\<rparr>)"
  by (simp add: run_pass_def launch_def Let_def)

lemma run_init_facts:
  "launched (fst (run_init sem hornet s)) = launched s @ [(NumV, InitOperator)]"
  "iteration (hd_prdata (fst (run_init sem hornet s))) = 0"
  "snd (run_init sem hornet s) = threshold (hd_prdata (fst (run_init sem hornet s))) + 1"
  by (simp_all add: run_init_def launch_def Let_def)

lemma run_init_control:
  assumes "keeps_control sem hornet"
  shows "iteration_max (hd_prdata (fst (run_init sem hornet s))) = iteration_max (hd_prdata s)"
    and "threshold (hd_prdata (fst (run_init sem hornet s))) = threshold (hd_prdata s)"
  using assms by (simp_all add: keeps_control_def run_init_def launch_def Let_def)

lemma after_passes_Suc:
  "after_passes sem hornet s (Suc k) = run_pass sem hornet (fst (after_passes sem hornet s k))"
  by (simp add: after_passes_def run_step_def)

lemma after_passes_control:
  assumes "keeps_control sem hornet"
  shows "iteration (hd_prdata (fst (after_passes sem hornet s k))) = int k"
    and "iteration_max (hd_prdata (fst (after_passes sem hornet s k))) =
           iteration_max (hd_prdata s)"
    and "threshold (hd_prdata (fst (after_passes sem hornet s k))) = threshold (hd_prdata s)"
  by (simp_all add: after_passes_def control_run_steps [OF assms] run_init_facts
        run_init_control [OF assms])

lemma after_passes_guard:
  assumes "keeps_control sem hornet"
  shows "run_guard (after_passes sem hornet s k) \<longleftrightarrow>
           int k < iteration_max (hd_prdata s)
           \<and> threshold (hd_prdata s) < snd (after_passes sem hornet s k)"
  by (simp add: run_guard_def after_passes_control [OF assms])

lemma after_passes_launched:
  "launched (fst (after_passes sem hornet s k)) =
     launched s @ (NumV, InitOperator) # concat (replicate k pass_launches)"
  by (simp add: after_passes_def launched_run_steps run_init_facts)

lemma run_returns:
  assumes "keeps_control sem hornet"
  shows "\<exists>n. run sem hornet s = Some (fst (after_passes sem hornet s n))
            \<and> (\<forall>k<n. run_guard (after_passes sem hornet s k))
            \<and> \<not> run_guard (after_passes sem hornet s n)"
  using run_loop_returns [OF assms, of "run_init sem hornet s"]
  by (simp add: run_def after_passes_def)

text \<open>The kernels of the specification write vectors and the reduction scalar only.\<close>

lemma fold_keeps:
  assumes "\<And>x d. P (f x d) = P d"
  shows "P (fold f xs d) = P d"
  by (induction xs arbitrary: d) (simp_all add: assms)

lemma spec_kernels_keep:
  "iteration (spec_kernels cast op hornet d) = iteration d"
  "iteration_max (spec_kernels cast op hornet d) = iteration_max d"
  "threshold (spec_kernels cast op hornet d) = threshold d"
  by (cases op;
      simp add: spec_kernels_def Reset_def ContributionCompute_def
        ContributionScatterUndirected_def DampAndDiff_def ConvergenceReduce_def
        forEachVertex_def forEachEdge_def
        fold_keeps [where P = iteration] fold_keeps [where P = iteration_max]
        fold_keeps [where P = threshold]
        Reset_at_def ContributionCompute_at_def ContributionScatterUndirected_at_def
        DampAndDiff_at_def ConvergenceReduce_at_def Let_def)+

lemma spec_kernels_keep_control: "keeps_control (spec_kernels cast) hornet"
  by (simp add: keeps_control_def spec_kernels_keep)

section \<open>The order of the kernels in a pass\<close>

text \<open>
  C1. Whatever the kernels compute, as long as they leave the loop's counters and the
  threshold alone, \<^verbatim>\<open>run\<close> returns after some number \<open>n\<close> of passes, \<open>n\<close> is the
  counter it leaves, and the launches it has issued are the initialisation followed by
  \<open>n\<close> repetitions of ResetCurr, ComputeContribuitionPerVertex, AddContribuitionsUndirected,
  DampAndDiffAndCopy, Sum, in this order. Each stage works on the data the stage before it
  left: the data after pass \<open>k + 1\<close> is the five kernels applied one after the other to the
  data after pass \<open>k\<close>, with the counter advanced.
\<close>

theorem run_launch_order:
  assumes "keeps_control sem hornet"
  shows "\<exists>n. run sem hornet s = Some (fst (after_passes sem hornet s n))
            \<and> get_iteration_count (fst (after_passes sem hornet s n)) = int n
            \<and> launched (fst (after_passes sem hornet s n)) =
                launched s @ (NumV, InitOperator) #
                  concat (replicate n
                    [(NumV, ResetCurr), (Vertices, ComputeContribuitionPerVertex),
                     (Edges, AddContribuitionsUndirected), (NumV, DampAndDiffAndCopy),
                     (NumV, Sum)])
            \<and> (\<forall>k<n. hd_prdata (fst (after_passes sem hornet s (Suc k))) =
                  (sem Sum hornet (sem DampAndDiffAndCopy hornet
                    (sem AddContribuitionsUndirected hornet
                      (sem ComputeContribuitionPerVertex hornet
                        (sem ResetCurr hornet (hd_prdata (fst (after_passes sem hornet s k))))))))
                  \<lparr>iteration := int k + 1\<rparr>)"
proof -
  from run_returns [OF assms, of s] obtain n where
    n: "run sem hornet s = Some (fst (after_passes sem hornet s n))" by blast
  have data: "hd_prdata (fst (after_passes sem hornet s (Suc k))) =
          (sem Sum hornet (sem DampAndDiffAndCopy hornet
            (sem AddContribuitionsUndirected hornet
              (sem ComputeContribuitionPerVertex hornet
                (sem ResetCurr hornet (hd_prdata (fst (after_passes sem hornet s k))))))))
          \<lparr>iteration := int k + 1\<rparr>" for k
  proof -
    have "iteration (hd_prdata (fst (after_passes sem hornet s (Suc k)))) = int (Suc k)"
      by (rule after_passes_control [OF assms])
    then show ?thesis
      by (simp add: after_passes_Suc run_pass_data Let_def)
  qed
  show ?thesis
    using n data
    by (intro exI [of _ n])
       (simp add: get_iteration_count_def after_passes_control [OF assms]
          after_passes_launched pass_launches_def)
qed

theorem run_launch_order_witness:
  "keeps_control (spec_kernels real) pair_graph
   \<and> (\<exists>n. run (spec_kernels real) pair_graph (pair_solver 2) =
             Some (fst (after_passes (spec_kernels real) pair_graph (pair_solver 2) n))
          \<and> get_iteration_count (fst (after_passes (spec_kernels real) pair_graph (pair_solver 2) n))
              = int n
          \<and> launched (fst (after_passes (spec_kernels real) pair_graph (pair_solver 2) n)) =
              launched (pair_solver 2) @ (NumV, InitOperator) #
                concat (replicate n
                  [(NumV, ResetCurr), (Vertices, ComputeContribuitionPerVertex),
                   (Edges, AddContribuitionsUndirected), (NumV, DampAndDiffAndCopy),
                   (NumV, Sum)]))
   \<and> launched (the (run (spec_kernels real) pair_graph (pair_solver 2))) =
       [(NumV, InitOperator),
        (NumV, ResetCurr), (Vertices, ComputeContribuitionPerVertex),
        (Edges, AddContribuitionsUndirected), (NumV, DampAndDiffAndCopy), (NumV, Sum),
        (NumV, ResetCurr), (Vertices, ComputeContribuitionPerVertex),
        (Edges, AddContribuitionsUndirected), (NumV, DampAndDiffAndCopy), (NumV, Sum)]"
proof -
  have kc: "keeps_control (spec_kernels real) pair_graph"
    by (rule spec_kernels_keep_control)
  have ev: "launched (the (run (spec_kernels real) pair_graph (pair_solver 2))) =
       [(NumV, InitOperator),
        (NumV, ResetCurr), (Vertices, ComputeContribuitionPerVertex),
        (Edges, AddContribuitionsUndirected), (NumV, DampAndDiffAndCopy), (NumV, Sum),
        (NumV, ResetCurr), (Vertices, ComputeContribuitionPerVertex),
        (Edges, AddContribuitionsUndirected), (NumV, DampAndDiffAndCopy), (NumV, Sum)]"
    by code_simp
  from run_launch_order [OF kc, of "pair_solver 2"] kc ev show ?thesis
    by blast
qed

section \<open>When the loop goes on and when it stops\<close>

text \<open>
  C2. Under the same proviso on the kernels, \<^verbatim>\<open>run\<close> returns after exactly \<open>n\<close> passes,
  where before each of them the counter was below \<open>iteration_max\<close> and the host copy of the
  reduction scalar was above \<open>threshold\<close> (so never at or below it), and after the last one
  this fails: the counter has reached \<open>iteration_max\<close> or the scalar no longer exceeds the
  threshold. From the first pass on the scalar tested is \<open>reduction_out\<close> as that pass left
  it. No launch follows: the log holds the initialisation and five launches per pass.
\<close>

theorem run_loop_condition:
  fixes s :: "'p::{one,plus,preorder} solver"
  assumes "keeps_control sem hornet"
  shows "\<exists>n. run sem hornet s = Some (fst (after_passes sem hornet s n))
            \<and> (\<forall>k<n. int k < iteration_max (hd_prdata s)
                      \<and> threshold (hd_prdata s) < snd (after_passes sem hornet s k))
            \<and> \<not> (int n < iteration_max (hd_prdata s)
                  \<and> threshold (hd_prdata s) < snd (after_passes sem hornet s n))
            \<and> (\<forall>k<n. \<not> snd (after_passes sem hornet s k) \<le> threshold (hd_prdata s))
            \<and> int n \<le> max 0 (iteration_max (hd_prdata s))
            \<and> (\<forall>k. snd (after_passes sem hornet s (Suc k)) =
                     reduction_out (hd_prdata (fst (after_passes sem hornet s (Suc k)))))
            \<and> length (launched (fst (after_passes sem hornet s n))) =
                length (launched s) + 1 + 5 * n"
proof -
  from run_returns [OF assms, of s] obtain n where
    ret: "run sem hornet s = Some (fst (after_passes sem hornet s n))"
    and go: "\<forall>k<n. run_guard (after_passes sem hornet s k)"
    and stop: "\<not> run_guard (after_passes sem hornet s n)" by blast
  have go': "int k < iteration_max (hd_prdata s)
             \<and> threshold (hd_prdata s) < snd (after_passes sem hornet s k)" if "k < n" for k
    using go that by (simp add: after_passes_guard [OF assms])
  have above: "\<not> snd (after_passes sem hornet s k) \<le> threshold (hd_prdata s)" if "k < n" for k
    using go' [OF that] by (simp add: less_le_not_le)
  have bound: "int n \<le> max 0 (iteration_max (hd_prdata s))"
  proof (cases n)
    case 0
    then show ?thesis by simp
  next
    case (Suc m)
    with go' [of m] show ?thesis by simp
  qed
  have len: "length (launched (fst (after_passes sem hornet s n))) =
               length (launched s) + 1 + 5 * n"
    by (simp add: after_passes_launched length_concat pass_launches_def sum_list_replicate)
  show ?thesis
    using ret go' stop above bound len
    by (intro exI [of _ n])
       (simp add: after_passes_guard [OF assms] after_passes_Suc run_pass_scalar)
qed

theorem run_loop_condition_witness:
  "keeps_control (spec_kernels real) pair_graph
   \<and> (\<exists>n. run (spec_kernels real) pair_graph (pair_solver 3) =
             Some (fst (after_passes (spec_kernels real) pair_graph (pair_solver 3) n))
          \<and> (\<forall>k<n. int k < iteration_max (hd_prdata (pair_solver 3))
                    \<and> threshold (hd_prdata (pair_solver 3))
                        < snd (after_passes (spec_kernels real) pair_graph (pair_solver 3) k))
          \<and> \<not> (int n < iteration_max (hd_prdata (pair_solver 3))
                \<and> threshold (hd_prdata (pair_solver 3))
                    < snd (after_passes (spec_kernels real) pair_graph (pair_solver 3) n))
          \<and> int n \<le> max 0 (iteration_max (hd_prdata (pair_solver 3))))
   \<and> get_iteration_count (the (run (spec_kernels real) pair_graph (pair_solver 3))) = 3
   \<and> reduction_out (hd_prdata (the (run (spec_kernels real) pair_graph (pair_solver 3)))) = 3 / 20"
proof -
  have kc: "keeps_control (spec_kernels real) pair_graph"
    by (rule spec_kernels_keep_control)
  have ev: "get_iteration_count (the (run (spec_kernels real) pair_graph (pair_solver 3))) = 3"
    "reduction_out (hd_prdata (the (run (spec_kernels real) pair_graph (pair_solver 3)))) = 3 / 20"
    by code_simp+
  from run_loop_condition [OF kc, of "pair_solver 3"] kc ev show ?thesis
    by blast
qed

section \<open>The iteration count after a run\<close>

text \<open>
  C3, as the source has it. With \<open>iteration_max = 0\<close>, a value the constructor accepts,
  \<^verbatim>\<open>run\<close> returns without a single pass: only the initialisation was launched and the
  count is \<open>0\<close>, outside \<open>[1, iteration_max]\<close>.
\<close>

theorem run_iteration_count_range_counterexample:
  "run (spec_kernels real) pair_graph (pair_solver 0) \<noteq> None
   \<and> launched (the (run (spec_kernels real) pair_graph (pair_solver 0))) = [(NumV, InitOperator)]
   \<and> get_iteration_count (the (run (spec_kernels real) pair_graph (pair_solver 0))) = 0
   \<and> \<not> (1 \<le> get_iteration_count (the (run (spec_kernels real) pair_graph (pair_solver 0)))
         \<and> get_iteration_count (the (run (spec_kernels real) pair_graph (pair_solver 0)))
             \<le> iteration_max (hd_prdata (pair_solver 0)))"
  by code_simp

text \<open>
  C3, amended. \<^verbatim>\<open>run\<close> sets \<open>h_out\<close> to \<open>threshold + 1\<close>. When \<open>iteration_max\<close> is at least
  \<open>1\<close> and \<open>threshold + 1\<close> compares greater than \<open>threshold\<close> in the arithmetic of the
  scores, \<^verbatim>\<open>run\<close> returns, it has made at least one full pass, and the iteration count
  it leaves is between \<open>1\<close> and \<open>iteration_max\<close>.
\<close>

theorem run_iteration_count_range:
  fixes s :: "'p::{one,plus,ord} solver"
  assumes "keeps_control sem hornet"
    and "1 \<le> iteration_max (hd_prdata s)"
    and "threshold (hd_prdata s) < threshold (hd_prdata s) + 1"
  shows "snd (run_init sem hornet s) = threshold (hd_prdata s) + 1
         \<and> (\<exists>s' rest. run sem hornet s = Some s'
              \<and> 1 \<le> get_iteration_count s'
              \<and> get_iteration_count s' \<le> iteration_max (hd_prdata s)
              \<and> launched s' = launched s @ (NumV, InitOperator) #
                   [(NumV, ResetCurr), (Vertices, ComputeContribuitionPerVertex),
                    (Edges, AddContribuitionsUndirected), (NumV, DampAndDiffAndCopy),
                    (NumV, Sum)] @ rest)"
proof -
  have h0: "snd (run_init sem hornet s) = threshold (hd_prdata s) + 1"
    by (simp add: run_init_facts run_init_control [OF assms(1)])
  from run_returns [OF assms(1), of s] obtain n where
    ret: "run sem hornet s = Some (fst (after_passes sem hornet s n))"
    and go: "\<forall>k<n. run_guard (after_passes sem hornet s k)"
    and stop: "\<not> run_guard (after_passes sem hornet s n)" by blast
  have "snd (after_passes sem hornet s 0) = threshold (hd_prdata s) + 1"
    using h0 by (simp add: after_passes_def)
  then have "run_guard (after_passes sem hornet s 0)"
    using assms(2,3) by (simp add: after_passes_guard [OF assms(1)])
  with stop have "n \<noteq> 0" by (cases n) auto
  then obtain m where m: "n = Suc m" by (cases n) auto
  with go have "run_guard (after_passes sem hornet s m)" by simp
  then have "int m < iteration_max (hd_prdata s)"
    by (simp add: after_passes_guard [OF assms(1)])
  with m have le: "int n \<le> iteration_max (hd_prdata s)" by simp
  have "launched (fst (after_passes sem hornet s n)) =
          launched s @ (NumV, InitOperator) # pass_launches @ concat (replicate m pass_launches)"
    by (simp add: after_passes_launched m)
  with ret le m h0 show ?thesis
    by (simp add: get_iteration_count_def after_passes_control [OF assms(1)] pass_launches_def)
qed

theorem run_iteration_count_range_witness:
  "keeps_control (spec_kernels real) pair_graph
   \<and> 1 \<le> iteration_max (hd_prdata (pair_solver 3))
   \<and> threshold (hd_prdata (pair_solver 3)) < threshold (hd_prdata (pair_solver 3)) + 1
   \<and> snd (run_init (spec_kernels real) pair_graph (pair_solver 3)) =
       threshold (hd_prdata (pair_solver 3)) + 1
   \<and> (\<exists>s'. run (spec_kernels real) pair_graph (pair_solver 3) = Some s'
          \<and> 1 \<le> get_iteration_count s'
          \<and> get_iteration_count s' \<le> iteration_max (hd_prdata (pair_solver 3)))"
proof -
  have kc: "keeps_control (spec_kernels real) pair_graph"
    by (rule spec_kernels_keep_control)
  have h1: "1 \<le> iteration_max (hd_prdata (pair_solver 3))"
    by code_simp
  have h2: "threshold (hd_prdata (pair_solver 3)) < threshold (hd_prdata (pair_solver 3)) + 1"
    by code_simp
  from run_iteration_count_range [OF kc h1 h2] kc h1 h2 show ?thesis
    by blast
qed

section \<open>Construction\<close>

lemma StaticPageRank_data:
  "hd_prdata (StaticPageRank cast raw junk hornet m t d) =
     raw\<lparr>nV := hornet_nV hornet,
         prev_pr := gpu_allocate junk (hornet_nV hornet + 1),
         curr_pr := gpu_allocate junk (hornet_nV hornet + 1),
         abs_diff := gpu_allocate junk (hornet_nV hornet + 1),
         contri := gpu_allocate junk (hornet_nV hornet + 1),
         reduction_out := junk 0,
         iteration := 0,
         iteration_max := m,
         threshold := t,
         damp := d,
         normalized_damp := (1 - d) / cast (hornet_nV hornet)\<rparr>"
  by (simp add: StaticPageRank_def setInputParameters_def reset_def Let_def)

lemma StaticPageRank_launched:
  "launched (StaticPageRank cast raw junk hornet m t d) = []"
  by (simp add: StaticPageRank_def setInputParameters_def reset_def Let_def)

text \<open>
  C6, as the source has it. The constructor accepts \<open>iteration_max = -5\<close>, threshold \<open>-1\<close>
  and damping \<open>2\<close>: it returns a solver that holds exactly these values.
\<close>

theorem StaticPageRank_accepts_any_parameters_counterexample:
  "iteration_max (hd_prdata
     (StaticPageRank real raw_example fresh_example pair_graph (- 5) (- 1) 2)) = - 5
   \<and> threshold (hd_prdata
       (StaticPageRank real raw_example fresh_example pair_graph (- 5) (- 1) 2)) = - 1
   \<and> damp (hd_prdata
       (StaticPageRank real raw_example fresh_example pair_graph (- 5) (- 1) 2)) = 2
   \<and> normalized_damp (hd_prdata
       (StaticPageRank real raw_example fresh_example pair_graph (- 5) (- 1) 2)) = - 1 / 2"
  by (simp add: StaticPageRank_data pair_graph_def)

text \<open>
  C6, amended. Construction checks nothing: for every \<open>iteration_max\<close>, threshold and
  damping it returns a solver that stores the three values as given, with
  \<open>normalized_damp = (1 - damp) / nV\<close>, the vertex count of the graph and four vectors of
  \<open>nV + 1\<close> cells.
\<close>

theorem StaticPageRank_accepts_any_parameters:
  "iteration_max (hd_prdata (StaticPageRank cast raw junk hornet m t d)) = m
   \<and> threshold (hd_prdata (StaticPageRank cast raw junk hornet m t d)) = t
   \<and> damp (hd_prdata (StaticPageRank cast raw junk hornet m t d)) = d
   \<and> normalized_damp (hd_prdata (StaticPageRank cast raw junk hornet m t d)) =
       (1 - d) / cast (hornet_nV hornet)
   \<and> nV (hd_prdata (StaticPageRank cast raw junk hornet m t d)) = hornet_nV hornet
   \<and> length (prev_pr (hd_prdata (StaticPageRank cast raw junk hornet m t d))) = hornet_nV hornet + 1
   \<and> length (curr_pr (hd_prdata (StaticPageRank cast raw junk hornet m t d))) = hornet_nV hornet + 1
   \<and> length (abs_diff (hd_prdata (StaticPageRank cast raw junk hornet m t d))) = hornet_nV hornet + 1
   \<and> length (contri (hd_prdata (StaticPageRank cast raw junk hornet m t d))) = hornet_nV hornet + 1"
  by (simp add: StaticPageRank_data gpu_allocate_def)

text \<open>
  C9, as the source has it. The constructor launches no kernel. On the example the scores
  it leaves are the content of the fresh memory, \<open>7, 8, 9\<close>, where the Reset stage of the
  specification would have left the baseline \<open>3/40\<close> on both vertices.
\<close>

theorem StaticPageRank_no_kernel_counterexample:
  "launched (pair_solver 3) = []
   \<and> (NumV, ResetCurr) \<notin> set (launched (pair_solver 3))
   \<and> curr_pr (hd_prdata (pair_solver 3)) = [7, 8, 9]
   \<and> curr_pr (Reset pair_graph (hd_prdata (pair_solver 3))) = [3 / 40, 3 / 40, 9]"
  by code_simp

text \<open>
  C9, amended. Construction stores the configuration, allocates the vectors and calls the
  host method \<^verbatim>\<open>reset\<close>, which sets the iteration counter to \<open>0\<close> and nothing else: the
  counter is \<open>0\<close> before any \<^verbatim>\<open>run\<close>, whatever the object held before, no kernel has been
  launched, and the score vector is the fresh memory as allocated.
\<close>

theorem StaticPageRank_resets_counter:
  "get_iteration_count (StaticPageRank cast raw junk hornet m t d) = 0
   \<and> launched (StaticPageRank cast raw junk hornet m t d) = []
   \<and> curr_pr (hd_prdata (StaticPageRank cast raw junk hornet m t d)) =
       gpu_allocate junk (hornet_nV hornet + 1)
   \<and> reset (StaticPageRank cast raw junk hornet m t d) = StaticPageRank cast raw junk hornet m t d
   \<and> iteration_max (hd_prdata (StaticPageRank cast raw junk hornet m t d)) = m
   \<and> threshold (hd_prdata (StaticPageRank cast raw junk hornet m t d)) = t
   \<and> damp (hd_prdata (StaticPageRank cast raw junk hornet m t d)) = d"
  by (simp add: get_iteration_count_def StaticPageRank_data StaticPageRank_launched reset_def)

section \<open>The ranking report\<close>

lemma ranking_indices_list:
  "ranking_indices n =
     [int n - 1, int n - 2, int n - 3, int n - 4, int n - 5,
      int n - 6, int n - 7, int n - 8, int n - 9, int n - 10]"
proof -
  have "[1..10] = [1, 2, 3, 4, 5, 6, 7, 8, 9, 10 :: int]"
    by code_simp
  then show ?thesis by (simp add: ranking_indices_def)
qed

lemma read_entries_in_range:
  assumes "\<forall>j\<in>set js. 0 \<le> j \<and> j < int (length h_ids)"
  shows "read_entries h_ids h_scores js = Inr (map (\<lambda>j. (h_ids ! nat j, h_scores ! nat j)) js)"
  using assms by (induction js) simp_all

lemma read_entries_first_outside:
  assumes "\<forall>j\<in>set pre. 0 \<le> j \<and> j < int (length h_ids)"
    and "j < 0 \<or> int (length h_ids) \<le> j"
  shows "read_entries h_ids h_scores (pre @ j # post) = Inl (OutOfBounds j)"
  using assms by (induction pre) auto

lemma length_SortPairs: "length (SortPairs keys vals) = min (length keys) (length vals)"
  by (simp add: SortPairs_def)

lemma ranking_indices_split:
  assumes "n < 10"
  shows "ranking_indices n =
           map (\<lambda>i. int n - i) [1..int n] @ (- 1) # map (\<lambda>i. int n - i) [int n + 2..10]"
proof -
  have "[1..10] = [1..int n + 1 - 1] @ [int n + 1..10]"
    using assms by (intro upto_split1) simp_all
  also have "[int n + 1..10] = (int n + 1) # [int n + 1 + 1..10]"
    using assms by (intro upto_rec1) simp
  finally show ?thesis
    by (simp add: ranking_indices_def add.commute)
qed

lemma read_entries_short:
  assumes "length h_ids < 10"
  shows "read_entries h_ids h_scores (ranking_indices (length h_ids)) = Inl (OutOfBounds (- 1))"
  unfolding ranking_indices_split [OF assms]
  by (rule read_entries_first_outside) auto

lemma read_entries_long:
  assumes "10 \<le> length h_ids"
  shows "read_entries h_ids h_scores (ranking_indices (length h_ids)) =
           Inr (map (\<lambda>j. (h_ids ! nat j, h_scores ! nat j)) (ranking_indices (length h_ids)))"
  using assms by (intro read_entries_in_range) (auto simp: ranking_indices_def)

lemma ranking_indices_nth:
  assumes "i < 10"
  shows "length (ranking_indices n) = 10" and "ranking_indices n ! i = int n - 1 - int i"
  using assms by (simp_all add: ranking_indices_def)

lemma ranking_reads_rev_drop:
  assumes "10 \<le> length xs"
  shows "map (\<lambda>j. xs ! nat j) (ranking_indices (length xs)) = rev (drop (length xs - 10) xs)"
proof (rule nth_equalityI)
  show "length (map (\<lambda>j. xs ! nat j) (ranking_indices (length xs))) =
          length (rev (drop (length xs - 10) xs))"
    using assms by (simp add: ranking_indices_def)
next
  fix i
  assume "i < length (map (\<lambda>j. xs ! nat j) (ranking_indices (length xs)))"
  then have i: "i < 10" by (simp add: ranking_indices_def)
  have "map (\<lambda>j. xs ! nat j) (ranking_indices (length xs)) ! i =
          xs ! nat (int (length xs) - 1 - int i)"
    using i by (simp add: ranking_indices_nth)
  moreover have "rev (drop (length xs - 10) xs) ! i = xs ! (length xs - 1 - i)"
    using assms i by (simp add: rev_nth)
  moreover have "nat (int (length xs) - 1 - int i) = length xs - 1 - i"
    using assms i by simp
  ultimately show "map (\<lambda>j. xs ! nat j) (ranking_indices (length xs)) ! i =
                   rev (drop (length xs - 10) xs) ! i"
    by simp
qed

lemma SortPairs_ids_member:
  assumes "length scores = n"
  shows "p \<in> set (SortPairs scores (SetIds_buffer n)) \<longleftrightarrow> snd p < n \<and> fst p = scores ! snd p"
proof
  assume "p \<in> set (SortPairs scores (SetIds_buffer n))"
  then obtain k where "scores ! k = fst p" "[0..<n] ! k = snd p" "k < n"
    using assms by (auto simp: SortPairs_def SetIds_buffer_def in_set_zip)
  then show "snd p < n \<and> fst p = scores ! snd p" by simp
next
  assume "snd p < n \<and> fst p = scores ! snd p"
  then have "scores ! snd p = fst p \<and> [0..<n] ! snd p = snd p \<and> snd p < length scores
             \<and> snd p < length [0..<n]"
    using assms by simp
  then show "p \<in> set (SortPairs scores (SetIds_buffer n))"
    unfolding SortPairs_def SetIds_buffer_def set_sort in_set_zip by blast
qed

lemma SortPairs_sorted: "sorted (map fst (SortPairs keys vals))"
  by (simp add: SortPairs_def sorted_sort_key)

lemma SortPairs_ids_distinct:
  assumes "length scores = n"
  shows "distinct (map snd (SortPairs scores (SetIds_buffer n)))"
proof -
  have "distinct (SortPairs scores (SetIds_buffer n))"
    by (simp add: SortPairs_def SetIds_buffer_def distinct_zipI2)
  moreover have "inj_on snd (set (SortPairs scores (SetIds_buffer n)))"
  proof (rule inj_onI)
    fix p q
    assume "p \<in> set (SortPairs scores (SetIds_buffer n))"
      and "q \<in> set (SortPairs scores (SetIds_buffer n))" and "snd p = snd q"
    then show "p = q"
      by (simp add: SortPairs_ids_member [OF assms] prod_eq_iff)
  qed
  ultimately show ?thesis by (simp add: distinct_map)
qed

lemma printRankings_long:
  assumes "hornet_nV hornet \<le> length (curr_pr (hd_prdata s))" and "10 \<le> hornet_nV hornet"
  shows "\<exists>out s'. printRankings sem hornet s = Inr (out, s')
           \<and> rankings out =
               map (\<lambda>j. (snd (SortPairs (take (hornet_nV hornet) (curr_pr (hd_prdata s)))
                                (SetIds_buffer (hornet_nV hornet)) ! nat j),
                         fst (SortPairs (take (hornet_nV hornet) (curr_pr (hd_prdata s)))
                                (SetIds_buffer (hornet_nV hornet)) ! nat j)))
                 (ranking_indices (hornet_nV hornet))"
proof -
  let ?n = "hornet_nV hornet"
  let ?xs = "SortPairs (take ?n (curr_pr (hd_prdata s))) (SetIds_buffer ?n)"
  have len: "length ?xs = ?n"
    using assms by (simp add: length_SortPairs SetIds_buffer_def)
  have "read_entries (map snd ?xs) (map fst ?xs) (ranking_indices (length (map snd ?xs))) =
          Inr (map (\<lambda>j. (map snd ?xs ! nat j, map fst ?xs ! nat j))
                 (ranking_indices (length (map snd ?xs))))"
    using assms(2) len by (intro read_entries_long) simp
  moreover have "map (\<lambda>j. (map snd ?xs ! nat j, map fst ?xs ! nat j)) (ranking_indices ?n) =
                 map (\<lambda>j. (snd (?xs ! nat j), fst (?xs ! nat j))) (ranking_indices ?n)"
    using assms(2) len by (intro map_cong refl) (auto simp: ranking_indices_def)
  ultimately show ?thesis
    using assms len by (simp add: printRankings_def Let_def)
qed

lemma printRankings_short:
  assumes "hornet_nV hornet \<le> length (curr_pr (hd_prdata s))" and "hornet_nV hornet < 10"
  shows "printRankings sem hornet s = Inl (OutOfBounds (- 1))"
proof -
  let ?n = "hornet_nV hornet"
  let ?xs = "SortPairs (take ?n (curr_pr (hd_prdata s))) (SetIds_buffer ?n)"
  have len: "length ?xs = ?n"
    using assms by (simp add: length_SortPairs SetIds_buffer_def)
  have "read_entries (map snd ?xs) (map fst ?xs) (ranking_indices (length (map snd ?xs))) =
          Inl (OutOfBounds (- 1))"
    using assms(2) len by (intro read_entries_short) simp
  then show ?thesis
    using assms len by (simp add: printRankings_def Let_def)
qed

text \<open>
  C8, as the source has it. The report takes no \<open>k\<close>. On a graph of twelve vertices it
  prints ten entries, whatever number was wanted: not three, and not all twelve.
\<close>

theorem printRankings_top_ten_counterexample:
  "\<not> isl (printRankings (spec_kernels real) dozen_graph dozen_solver)
   \<and> rankings (fst (projr (printRankings (spec_kernels real) dozen_graph dozen_solver))) =
       [(11, 13), (4, 13), (8, 12), (1, 12), (5, 11), (9, 10), (2, 10), (6, 9), (10, 8), (3, 8)]
   \<and> length (rankings (fst (projr (printRankings (spec_kernels real) dozen_graph dozen_solver))))
       \<noteq> 3
   \<and> length (rankings (fst (projr (printRankings (spec_kernels real) dozen_graph dozen_solver))))
       \<noteq> hornet_nV dozen_graph"
  by code_simp

text \<open>
  C8, amended. On a graph of at least ten vertices the report prints exactly ten pairs of
  vertex id and score, in non-increasing order of score; the ids are distinct vertices,
  each with its own score as \<^verbatim>\<open>get_page_rank_score_host\<close> gives it, and no vertex left
  out has a score above any that is printed.
\<close>

theorem printRankings_top_ten:
  fixes s :: "'p::linorder solver"
  assumes "hornet_nV hornet \<le> length (curr_pr (hd_prdata s))" and "10 \<le> hornet_nV hornet"
  shows "\<exists>out s'. printRankings sem hornet s = Inr (out, s')
           \<and> length (rankings out) = 10
           \<and> sorted (rev (map snd (rankings out)))
           \<and> distinct (map fst (rankings out))
           \<and> (\<forall>e\<in>set (rankings out). fst e < hornet_nV hornet
                  \<and> snd e = get_page_rank_score_host hornet s ! fst e)
           \<and> (\<forall>v<hornet_nV hornet. v \<notin> fst ` set (rankings out) \<longrightarrow>
                  (\<forall>e\<in>set (rankings out). get_page_rank_score_host hornet s ! v \<le> snd e))"
proof -
  let ?n = "hornet_nV hornet"
  let ?scores = "get_page_rank_score_host hornet s"
  define xs where "xs = SortPairs ?scores (SetIds_buffer ?n)"
  define ys where "ys = drop (?n - 10) xs"
  define zs where "zs = take (?n - 10) xs"
  have lsc: "length ?scores = ?n"
    using assms(1) by (simp add: get_page_rank_score_host_def)
  have len: "length xs = ?n"
    using lsc by (simp add: xs_def length_SortPairs SetIds_buffer_def)
  have split: "xs = zs @ ys"
    by (simp add: ys_def zs_def)
  have mem: "p \<in> set xs \<longleftrightarrow> snd p < ?n \<and> fst p = ?scores ! snd p" for p
    unfolding xs_def by (rule SortPairs_ids_member [OF lsc])
  have srt: "sorted (map fst zs @ map fst ys)"
    using SortPairs_sorted [of ?scores "SetIds_buffer ?n"] by (simp add: xs_def [symmetric] split)
  have dist: "distinct (map snd zs @ map snd ys)"
    using SortPairs_ids_distinct [OF lsc] by (simp add: xs_def [symmetric] split)
  from printRankings_long [OF assms, of sem] obtain out s' where
    ret: "printRankings sem hornet s = Inr (out, s')"
    and rk: "rankings out = map (\<lambda>j. (snd (xs ! nat j), fst (xs ! nat j))) (ranking_indices ?n)"
    by (auto simp: xs_def get_page_rank_score_host_def)
  have "map (\<lambda>j. (snd (xs ! nat j), fst (xs ! nat j))) (ranking_indices ?n) =
          map (\<lambda>p. (snd p, fst p)) (map (\<lambda>j. xs ! nat j) (ranking_indices (length xs)))"
    by (simp add: len)
  also have "\<dots> = map (\<lambda>p. (snd p, fst p)) (rev ys)"
  proof -
    have "10 \<le> length xs" using assms(2) len by simp
    from ranking_reads_rev_drop [OF this] show ?thesis
      unfolding ys_def len by (rule arg_cong)
  qed
  finally have rk': "rankings out = map (\<lambda>p. (snd p, fst p)) (rev ys)"
    using rk by simp
  have l10: "length (rankings out) = 10"
    using assms(2) len by (simp add: rk' ys_def)
  have "rev (map snd (rankings out)) = map fst ys"
    by (simp add: rk' rev_map [symmetric])
  with srt have s1: "sorted (rev (map snd (rankings out)))"
    by (simp add: sorted_append)
  have "map fst (rankings out) = rev (map snd ys)"
    by (simp add: rk' rev_map)
  with dist have d1: "distinct (map fst (rankings out))"
    by simp
  have inys: "(snd e, fst e) \<in> set ys" if "e \<in> set (rankings out)" for e
    using that by (auto simp: rk')
  have m1: "fst e < ?n \<and> snd e = ?scores ! fst e" if "e \<in> set (rankings out)" for e
    using inys [OF that] mem [of "(snd e, fst e)"] by (simp add: split)
  have m2: "?scores ! v \<le> snd e"
    if "v < ?n" "v \<notin> fst ` set (rankings out)" "e \<in> set (rankings out)" for v e
  proof -
    have "(?scores ! v, v) \<in> set xs"
      using that(1) by (simp add: mem)
    moreover have "(?scores ! v, v) \<notin> set ys"
    proof
      assume "(?scores ! v, v) \<in> set ys"
      then have "(v, ?scores ! v) \<in> set (rankings out)"
        by (force simp: rk')
      then have "v \<in> fst ` set (rankings out)" by force
      with that(2) show False by simp
    qed
    ultimately have a: "(?scores ! v, v) \<in> set zs"
      by (simp add: split)
    have "\<forall>x\<in>set zs. \<forall>y\<in>set ys. fst x \<le> fst y"
      using srt by (simp add: sorted_append)
    with a inys [OF that(3)] have "fst (?scores ! v, v) \<le> fst (snd e, fst e)"
      by blast
    then show ?thesis by simp
  qed
  from ret l10 s1 d1 m1 m2 show ?thesis
    by blast
qed

theorem printRankings_top_ten_witness:
  "hornet_nV dozen_graph \<le> length (curr_pr (hd_prdata dozen_solver))
   \<and> 10 \<le> hornet_nV dozen_graph
   \<and> (\<exists>out s'. printRankings (spec_kernels real) dozen_graph dozen_solver = Inr (out, s')
          \<and> length (rankings out) = 10
          \<and> sorted (rev (map snd (rankings out)))
          \<and> distinct (map fst (rankings out)))
   \<and> get_page_rank_score_host dozen_graph dozen_solver =
       [7, 12, 10, 8, 13, 11, 9, 7, 12, 10, 8, 13]"
proof -
  have h1: "hornet_nV dozen_graph \<le> length (curr_pr (hd_prdata dozen_solver))"
    by code_simp
  have h2: "10 \<le> hornet_nV dozen_graph"
    by code_simp
  have ev: "get_page_rank_score_host dozen_graph dozen_solver =
              [7, 12, 10, 8, 13, 11, 9, 7, 12, 10, 8, 13]"
    by code_simp
  from printRankings_top_ten [OF h1 h2, of "spec_kernels real"] h1 h2 ev show ?thesis
    by blast
qed

text \<open>
  C10. The report reads \<open>h_ids\<close> and \<open>h_scores\<close> at the ten indices \<open>nV - 1\<close> down to
  \<open>nV - 10\<close> and at no other, and has no parameter that could change this. On a graph of
  ten vertices or more it prints the entries of the sorted arrays at these indices. On a
  graph of fewer than ten vertices the index \<open>-1\<close> is among them, before the start of
  arrays of \<open>nV\<close> cells, and the report reads there.
\<close>

theorem printRankings_reads_last_ten:
  assumes "hornet_nV hornet \<le> length (curr_pr (hd_prdata s))"
  shows "ranking_indices (hornet_nV hornet) =
           [int (hornet_nV hornet) - 1, int (hornet_nV hornet) - 2, int (hornet_nV hornet) - 3,
            int (hornet_nV hornet) - 4, int (hornet_nV hornet) - 5, int (hornet_nV hornet) - 6,
            int (hornet_nV hornet) - 7, int (hornet_nV hornet) - 8, int (hornet_nV hornet) - 9,
            int (hornet_nV hornet) - 10]
         \<and> (10 \<le> hornet_nV hornet \<longrightarrow>
              (\<exists>out s'. printRankings sem hornet s = Inr (out, s')
                 \<and> rankings out =
                     map (\<lambda>j. (snd (SortPairs (take (hornet_nV hornet) (curr_pr (hd_prdata s)))
                                      (SetIds_buffer (hornet_nV hornet)) ! nat j),
                               fst (SortPairs (take (hornet_nV hornet) (curr_pr (hd_prdata s)))
                                      (SetIds_buffer (hornet_nV hornet)) ! nat j)))
                       (ranking_indices (hornet_nV hornet))))
         \<and> (hornet_nV hornet < 10 \<longrightarrow>
              printRankings sem hornet s = Inl (OutOfBounds (- 1))
              \<and> - 1 \<in> set (ranking_indices (hornet_nV hornet)))"
proof -
  have "- 1 \<in> set (ranking_indices (hornet_nV hornet))" if "hornet_nV hornet < 10"
    by (simp add: ranking_indices_split [OF that])
  with printRankings_long [OF assms, of sem] printRankings_short [OF assms, of sem]
  show ?thesis
    by (simp add: ranking_indices_list)
qed

theorem printRankings_reads_last_ten_witness:
  "hornet_nV pair_graph \<le> length (curr_pr (hd_prdata (pair_solver 3)))
   \<and> hornet_nV pair_graph < 10
   \<and> ranking_indices (hornet_nV pair_graph) = [1, 0, - 1, - 2, - 3, - 4, - 5, - 6, - 7, - 8]
   \<and> printRankings (spec_kernels real) pair_graph (pair_solver 3) = Inl (OutOfBounds (- 1))
   \<and> hornet_nV dozen_graph \<le> length (curr_pr (hd_prdata dozen_solver))
   \<and> 10 \<le> hornet_nV dozen_graph
   \<and> ranking_indices (hornet_nV dozen_graph) = [11, 10, 9, 8, 7, 6, 5, 4, 3, 2]
   \<and> (\<exists>out s'. printRankings (spec_kernels real) dozen_graph dozen_solver = Inr (out, s'))"
proof -
  have h: "hornet_nV pair_graph \<le> length (curr_pr (hd_prdata (pair_solver 3)))"
    by code_simp
  have n: "hornet_nV pair_graph = 2"
    by (simp add: pair_graph_def)
  have h': "hornet_nV dozen_graph \<le> length (curr_pr (hd_prdata dozen_solver))"
    by code_simp
  have n': "hornet_nV dozen_graph = 12"
    by (simp add: dozen_graph_def)
  from printRankings_reads_last_ten [OF h, of "spec_kernels real"]
    printRankings_reads_last_ten [OF h', of "spec_kernels real"] h h'
  show ?thesis
    by (auto simp: n n')
qed

section \<open>The contribution stages\<close>


lemma update_map_upt:
  "(map f [0..<L])[n := y] = map (\<lambda>v. if v = n then y else f v) [0..<L]"
  by (auto simp: list_eq_iff_nth_eq nth_list_update)

lemma Reset_fold:
  "fold Reset_at [0..<n] d =
     d\<lparr>curr_pr := map (\<lambda>v. if v < n then normalized_damp d else curr_pr d ! v)
                     [0..<length (curr_pr d)]\<rparr>"
proof (induction n)
  case 0
  show ?case by (simp add: map_nth)
next
  case (Suc n)
  then show ?case
    by (auto simp: Reset_at_def update_map_upt less_Suc_eq)
qed

lemma ContributionCompute_fold:
  "fold (ContributionCompute_at cast hornet) [0..<n] d =
     d\<lparr>contri := map (\<lambda>v. if v < n
                           then (if 0 < out_degree hornet v
                                 then prev_pr d ! v / cast (out_degree hornet v) else 0)
                           else contri d ! v)
                    [0..<length (contri d)]\<rparr>"
proof (induction n)
  case 0
  show ?case by (simp add: map_nth)
next
  case (Suc n)
  then show ?case
    by (auto simp: ContributionCompute_at_def update_map_upt less_Suc_eq)
qed

lemma ContributionScatter_fold:
  "contri (fold ContributionScatter_at es d) = contri d"
  "length (curr_pr (fold ContributionScatter_at es d)) = length (curr_pr d)"
  "w < length (curr_pr d) \<Longrightarrow>
     curr_pr (fold ContributionScatter_at es d) ! w =
       foldl (+) (curr_pr d ! w) (map (\<lambda>e. contri d ! fst e) (filter (\<lambda>e. snd e = w) es))"
  by (induction es arbitrary: d) (simp_all add: ContributionScatter_at_def nth_list_update)

lemma ContributionScatterUndirected_fold:
  "contri (fold ContributionScatterUndirected_at es d) = contri d"
  "length (curr_pr (fold ContributionScatterUndirected_at es d)) = length (curr_pr d)"
  "w < length (curr_pr d) \<Longrightarrow> contri d = C \<Longrightarrow>
     curr_pr (fold ContributionScatterUndirected_at es d) ! w =
       foldl (+) (curr_pr d ! w)
         (concat (map (\<lambda>e. (if snd e = w then [C ! fst e] else [])
                          @ (if fst e = w then [C ! fst e] else [])) es))"
  by (induction es arbitrary: d)
     (simp_all add: ContributionScatterUndirected_at_def Let_def nth_list_update)

lemma fold_prev_pr_update:
  assumes "\<And>x d. f x (d\<lparr>prev_pr := P\<rparr>) = (f x d)\<lparr>prev_pr := P\<rparr>"
  shows "fold f xs (d\<lparr>prev_pr := P\<rparr>) = (fold f xs d)\<lparr>prev_pr := P\<rparr>"
  by (induction xs arbitrary: d) (simp_all add: assms)

lemma Reset_prev_pr_update:
  "Reset hornet (d\<lparr>prev_pr := P\<rparr>) = (Reset hornet d)\<lparr>prev_pr := P\<rparr>"
  by (simp add: Reset_def forEachVertex_def fold_prev_pr_update Reset_at_def)

lemma ContributionScatter_prev_pr_update:
  "ContributionScatter hornet (d\<lparr>prev_pr := P\<rparr>) = (ContributionScatter hornet d)\<lparr>prev_pr := P\<rparr>"
  by (simp add: ContributionScatter_def forEachEdge_def fold_prev_pr_update
        ContributionScatter_at_def)

lemma ContributionScatterUndirected_prev_pr_update:
  "ContributionScatterUndirected hornet (d\<lparr>prev_pr := P\<rparr>) =
     (ContributionScatterUndirected hornet d)\<lparr>prev_pr := P\<rparr>"
  by (simp add: ContributionScatterUndirected_def forEachEdge_def fold_prev_pr_update
        ContributionScatterUndirected_at_def Let_def)

lemma ContributionCompute_eq:
  assumes "prev_pr d = P" and "contri d = C"
  shows "ContributionCompute cast hornet d =
           d\<lparr>contri := map (\<lambda>v. if v < hornet_nV hornet
                                 then (if 0 < out_degree hornet v
                                       then P ! v / cast (out_degree hornet v) else 0)
                                 else C ! v)
                          [0..<length C]\<rparr>"
  unfolding ContributionCompute_def forEachVertex_def ContributionCompute_fold
  using assms by simp

lemma ContributionCompute_dangling:
  assumes "out_degree hornet u = 0"
  shows "ContributionCompute cast hornet (d\<lparr>prev_pr := (prev_pr d)[u := x]\<rparr>) =
           (ContributionCompute cast hornet d)\<lparr>prev_pr := (prev_pr d)[u := x]\<rparr>"
proof -
  have "(if 0 < out_degree hornet v
         then (prev_pr d)[u := x] ! v / cast (out_degree hornet v) else 0) =
        (if 0 < out_degree hornet v
         then prev_pr d ! v / cast (out_degree hornet v) else 0)" for v
    using assms by (cases "v = u") simp_all
  then show ?thesis
    by (simp add: ContributionCompute_eq [where P = "(prev_pr d)[u := x]" and C = "contri d"]
          ContributionCompute_eq [where P = "prev_pr d" and C = "contri d"])
qed

lemma spec_pass_data:
  "hd_prdata (fst (run_pass (spec_kernels cast) hornet s)) =
     (let d = ConvergenceReduce hornet (DampAndDiff hornet
                (ContributionScatterUndirected hornet
                  (ContributionCompute cast hornet (Reset hornet (hd_prdata s)))))
      in d\<lparr>iteration := iteration d + 1\<rparr>)"
  by (simp add: run_pass_data spec_kernels_def)

text \<open>
  C4. With the stages as the specification words them: the contributions the edge pass
  works on are, for every vertex \<open>v\<close>, \<open>prev_score[v] / out_degree(v)\<close> when the out-degree
  is positive and \<open>0\<close> when it is zero, taken from the scores the pass started with; a pass
  is Reset, then this computation, then the scatter, the difference and the reduction. A
  vertex without out-edges has contribution \<open>0\<close>, and the scores after the scatter, in the
  undirected and in the directed variant, are the same whatever score that vertex had:
  nothing of it reaches any vertex.
\<close>

theorem ContributionCompute_per_vertex:
  fixes d :: "'p::{zero,plus,minus,abs,inverse} PrData"
  assumes "v < hornet_nV hornet" and "v < length (contri d)"
  shows "contri (ContributionCompute cast hornet (Reset hornet d)) ! v =
           (if 0 < out_degree hornet v then prev_pr d ! v / cast (out_degree hornet v) else 0)
         \<and> (hd_prdata s = d \<longrightarrow>
              hd_prdata (fst (run_pass (spec_kernels cast) hornet s)) =
                (let d' = ConvergenceReduce hornet (DampAndDiff hornet
                            (ContributionScatterUndirected hornet
                              (ContributionCompute cast hornet (Reset hornet d))))
                 in d'\<lparr>iteration := iteration d' + 1\<rparr>))
         \<and> (out_degree hornet v = 0 \<longrightarrow>
              contri (ContributionCompute cast hornet (Reset hornet d)) ! v = 0
              \<and> curr_pr (ContributionScatterUndirected hornet (ContributionCompute cast hornet
                   (Reset hornet (d\<lparr>prev_pr := (prev_pr d)[v := x]\<rparr>)))) =
                curr_pr (ContributionScatterUndirected hornet (ContributionCompute cast hornet
                   (Reset hornet d)))
              \<and> curr_pr (ContributionScatter hornet (ContributionCompute cast hornet
                   (Reset hornet (d\<lparr>prev_pr := (prev_pr d)[v := x]\<rparr>)))) =
                curr_pr (ContributionScatter hornet (ContributionCompute cast hornet
                   (Reset hornet d))))"
proof -
  have rs: "prev_pr (Reset hornet d) = prev_pr d" "contri (Reset hornet d) = contri d"
    by (simp_all add: Reset_def forEachVertex_def Reset_fold)
  have c: "contri (ContributionCompute cast hornet (Reset hornet d)) ! v =
           (if 0 < out_degree hornet v then prev_pr d ! v / cast (out_degree hornet v) else 0)"
    using assms
    by (simp add: ContributionCompute_eq [where P = "prev_pr d" and C = "contri d"] rs)
  have p: "hd_prdata (fst (run_pass (spec_kernels cast) hornet s)) =
             (let d' = ConvergenceReduce hornet (DampAndDiff hornet
                         (ContributionScatterUndirected hornet
                           (ContributionCompute cast hornet (Reset hornet d))))
              in d'\<lparr>iteration := iteration d' + 1\<rparr>)" if "hd_prdata s = d"
    using that by (simp add: spec_pass_data)
  have n: "ContributionCompute cast hornet (Reset hornet (d\<lparr>prev_pr := (prev_pr d)[v := x]\<rparr>)) =
           (ContributionCompute cast hornet (Reset hornet d))\<lparr>prev_pr := (prev_pr d)[v := x]\<rparr>"
    if "out_degree hornet v = 0"
    using ContributionCompute_dangling [OF that, of cast "Reset hornet d" x]
    by (simp add: Reset_prev_pr_update rs)
  show ?thesis
    using c p n
    by (simp add: ContributionScatterUndirected_prev_pr_update ContributionScatter_prev_pr_update)
qed

theorem ContributionCompute_per_vertex_witness:
  "1 < hornet_nV pair_graph
   \<and> 1 < length (contri (hd_prdata (pair_solver 3)))
   \<and> out_degree pair_graph 1 = 0
   \<and> contri (ContributionCompute real pair_graph (Reset pair_graph (hd_prdata (pair_solver 3)))) ! 1
       = 0
   \<and> curr_pr (ContributionScatterUndirected pair_graph (ContributionCompute real pair_graph
        (Reset pair_graph ((hd_prdata (pair_solver 3))
           \<lparr>prev_pr := (prev_pr (hd_prdata (pair_solver 3)))[1 := 100]\<rparr>)))) =
      curr_pr (ContributionScatterUndirected pair_graph (ContributionCompute real pair_graph
        (Reset pair_graph (hd_prdata (pair_solver 3)))))
   \<and> contri (ContributionCompute real pair_graph (Reset pair_graph (hd_prdata (pair_solver 3))))
       = [7, 0, 9]"
proof -
  have h1: "1 < hornet_nV pair_graph"
    by code_simp
  have h2: "1 < length (contri (hd_prdata (pair_solver 3)))"
    by code_simp
  have h3: "out_degree pair_graph 1 = 0"
    by code_simp
  have ev: "contri (ContributionCompute real pair_graph
              (Reset pair_graph (hd_prdata (pair_solver 3)))) = [7, 0, 9]"
    by code_simp
  from ContributionCompute_per_vertex
         [OF h1 h2, where cast = real and s = "pair_solver 3" and x = 100] h1 h2 h3 ev
  show ?thesis
    by simp
qed

lemma DampAndDiff_curr_pr: "curr_pr (DampAndDiff hornet d) = curr_pr d"
  by (simp add: DampAndDiff_def forEachVertex_def fold_keeps [where P = curr_pr]
        DampAndDiff_at_def Let_def)

lemma ConvergenceReduce_curr_pr: "curr_pr (ConvergenceReduce hornet d) = curr_pr d"
  by (simp add: ConvergenceReduce_def forEachVertex_def fold_keeps [where P = curr_pr]
        ConvergenceReduce_at_def)

lemma pair_graph_pass_scores:
  assumes "2 \<le> length (curr_pr d)"
  shows "curr_pr (ContributionScatterUndirected pair_graph
           (ContributionCompute cast pair_graph (Reset pair_graph d))) ! 0 =
         normalized_damp d + contri (ContributionCompute cast pair_graph (Reset pair_graph d)) ! 0"
    and "curr_pr (ContributionScatterUndirected pair_graph
           (ContributionCompute cast pair_graph (Reset pair_graph d))) ! 1 =
         normalized_damp d + contri (ContributionCompute cast pair_graph (Reset pair_graph d)) ! 0"
proof -
  let ?d2 = "ContributionCompute cast pair_graph (Reset pair_graph d)"
  have cur: "curr_pr ?d2 =
               map (\<lambda>v. if v < 2 then normalized_damp d else curr_pr d ! v) [0..<length (curr_pr d)]"
    by (simp add: ContributionCompute_eq [OF refl refl] Reset_def forEachVertex_def Reset_fold
          pair_graph_def)
  have c0: "curr_pr ?d2 ! 0 = normalized_damp d" and c1: "curr_pr ?d2 ! 1 = normalized_damp d"
    and len: "2 \<le> length (curr_pr ?d2)"
  proof -
    have "0 < length (curr_pr d)" and "1 < length (curr_pr d)"
      using assms by linarith+
    then show "curr_pr ?d2 ! 0 = normalized_damp d" and "curr_pr ?d2 ! 1 = normalized_damp d"
      by (simp_all add: cur)
    show "2 \<le> length (curr_pr ?d2)"
      using assms by (simp add: cur)
  qed
  have sc: "curr_pr (ContributionScatterUndirected pair_graph ?d2) =
          (curr_pr ?d2)[1 := curr_pr ?d2 ! 1 + contri ?d2 ! 0,
                        0 := (curr_pr ?d2)[1 := curr_pr ?d2 ! 1 + contri ?d2 ! 0] ! 0 + contri ?d2 ! 0]"
    by (simp add: ContributionScatterUndirected_def forEachEdge_def pair_graph_def
          ContributionScatterUndirected_at_def Let_def)
  from len have len0: "0 < length (curr_pr ?d2)" and len1: "1 < length (curr_pr ?d2)"
    by linarith+
  show "curr_pr (ContributionScatterUndirected pair_graph ?d2) ! 0 =
          normalized_damp d + contri ?d2 ! 0"
    using len0 len1 c0 c1 by (simp add: sc)
  show "curr_pr (ContributionScatterUndirected pair_graph ?d2) ! 1 =
          normalized_damp d + contri ?d2 ! 0"
    using len0 len1 c0 c1 by (simp add: sc)
qed

text \<open>
  C5. With the stages as the specification words them: the directed scatter leaves in
  \<open>curr_score[w]\<close> its old value plus \<open>contribution[u]\<close> for every stored edge \<open>(u, w)\<close>,
  added one at a time in the order of the edges; the undirected scatter adds the
  contribution of every stored edge once to each of its two endpoints. On the graph with
  the single edge \<open>(0, 1)\<close> the two scores are equal after a pass, from any starting data.
  That the additions are atomic is not part of this sequential model.
\<close>

theorem ContributionScatter_edges:
  fixes d :: "'p::{zero,plus,minus,abs,inverse} PrData"
  assumes "w < length (curr_pr d)" and "2 \<le> length (curr_pr (hd_prdata s))"
  shows "curr_pr (ContributionScatter hornet d) ! w =
           foldl (+) (curr_pr d ! w)
             (map (\<lambda>e. contri d ! fst e) (filter (\<lambda>e. snd e = w) (hornet_edges hornet)))
         \<and> curr_pr (ContributionScatterUndirected hornet d) ! w =
             foldl (+) (curr_pr d ! w)
               (concat (map (\<lambda>e. (if snd e = w then [contri d ! fst e] else [])
                                @ (if fst e = w then [contri d ! fst e] else []))
                          (hornet_edges hornet)))
         \<and> curr_pr (hd_prdata (fst (run_pass (spec_kernels cast) pair_graph s))) ! 0 =
             curr_pr (hd_prdata (fst (run_pass (spec_kernels cast) pair_graph s))) ! 1"
proof -
  have a: "curr_pr (ContributionScatter hornet d) ! w =
           foldl (+) (curr_pr d ! w)
             (map (\<lambda>e. contri d ! fst e) (filter (\<lambda>e. snd e = w) (hornet_edges hornet)))"
    unfolding ContributionScatter_def forEachEdge_def
    by (rule ContributionScatter_fold(3) [OF assms(1)])
  have b: "curr_pr (ContributionScatterUndirected hornet d) ! w =
             foldl (+) (curr_pr d ! w)
               (concat (map (\<lambda>e. (if snd e = w then [contri d ! fst e] else [])
                                @ (if fst e = w then [contri d ! fst e] else []))
                          (hornet_edges hornet)))"
    unfolding ContributionScatterUndirected_def forEachEdge_def
    by (rule ContributionScatterUndirected_fold(3) [OF assms(1) refl])
  have c: "curr_pr (hd_prdata (fst (run_pass (spec_kernels cast) pair_graph s))) ! 0 =
           curr_pr (hd_prdata (fst (run_pass (spec_kernels cast) pair_graph s))) ! 1"
  proof -
    have "curr_pr (hd_prdata (fst (run_pass (spec_kernels cast) pair_graph s))) =
            curr_pr (ContributionScatterUndirected pair_graph
              (ContributionCompute cast pair_graph (Reset pair_graph (hd_prdata s))))"
      by (simp add: spec_pass_data Let_def ConvergenceReduce_curr_pr DampAndDiff_curr_pr)
    then show ?thesis
      by (simp only: pair_graph_pass_scores [OF assms(2)])
  qed
  from a b c show ?thesis by blast
qed

theorem ContributionScatter_edges_witness:
  "1 < length (curr_pr (hd_prdata (pair_solver 1)))
   \<and> 2 \<le> length (curr_pr (hd_prdata (pair_solver 1)))
   \<and> curr_pr (hd_prdata (fst (run_pass (spec_kernels real) pair_graph (pair_solver 1)))) ! 0 =
       curr_pr (hd_prdata (fst (run_pass (spec_kernels real) pair_graph (pair_solver 1)))) ! 1
   \<and> curr_pr (hd_prdata (the (run (spec_kernels real) pair_graph (pair_solver 1)))) =
       [283 / 40, 283 / 40, 9]"
proof -
  have h1: "1 < length (curr_pr (hd_prdata (pair_solver 1)))"
    by code_simp
  have h2: "2 \<le> length (curr_pr (hd_prdata (pair_solver 1)))"
    by code_simp
  have ev: "curr_pr (hd_prdata (the (run (spec_kernels real) pair_graph (pair_solver 1)))) =
              [283 / 40, 283 / 40, 9]"
    by code_simp
  from ContributionScatter_edges [OF h1 h2, where cast = real and hornet = pair_graph] h1 h2 ev
  show ?thesis
    by blast
qed

section \<open>The sum of the scores\<close>

















end
